theory Spec2Isabelle
  imports Main "HOL-Library.Word" "HOL-Library.Finite_Map" "HOL-Library.Sublist"
begin

section \<open>The emulated host of proxytest/base.go\<close>

text \<open>
  The Go file \<^verbatim>\<open>proxytest/base.go\<close> implements the host side of the proxy-wasm ABI for
  unit tests: logs, a tick period, shared queues, a shared key/value store guarded by a
  compare-and-swap counter, and metrics. Every method of \<^verbatim>\<open>baseHost\<close> is embedded below as a
  function that takes the host state and returns the status, the values written through
  the output pointers, and the state after the call.

  The unsafe conversions at the top of each method only rebuild a Go string or byte slice
  from an address and a length; the embedding starts from the rebuilt value. The
  \<^verbatim>\<open>log.Printf\<close> calls write to the process log and touch no field of the host.

  Names are those of the source. Where HOL has the name already, the nearest one is used:
  \<open>qid\<close> and \<open>mid\<close> for the local \<^verbatim>\<open>id\<close>, \<open>val\<close> for \<^verbatim>\<open>value\<close>, and \<open>c\<close> for the argument
  \<^verbatim>\<open>cas\<close> of \<^verbatim>\<open>ProxySetSharedData\<close>, which the field \<open>cas\<close> of \<open>sharedData\<close> shadows.
\<close>

subsection \<open>Data\<close>

type_synonym byte = "8 word"
type_synonym uint32 = "32 word"
type_synonym uint64 = "64 word"

text \<open>Go's \<^verbatim>\<open>int64\<close>: sixty-four bits read in two's complement (\<^const>\<open>sint\<close>).\<close>

type_synonym int64 = "64 word"

text \<open>
  Modelled from the spec: \<^verbatim>\<open>types.Status\<close>, declared in the package \<^verbatim>\<open>proxywasm/types\<close>.
  The constructors are the five statuses that base.go returns.
\<close>

datatype Status =
  StatusOK | StatusNotFound | StatusBadArgument | StatusEmpty | StatusCasMismatch

text \<open>
  Modelled from the spec: \<^verbatim>\<open>types.MetricType\<close>, declared in the package \<^verbatim>\<open>proxywasm/types\<close>.
  base.go stores the value and never inspects it.
\<close>

datatype MetricType = MetricTypeCounter | MetricTypeGauge | MetricTypeHistogram

text \<open>
  Modelled from the spec: \<^verbatim>\<open>types.LogLevel\<close>, declared in the package \<^verbatim>\<open>proxywasm/types\<close>:
  an unsigned integer that base.go uses as an array index and compares with
  \<^verbatim>\<open>types.LogLevelMax\<close>.
\<close>

type_synonym LogLevel = uint32

text \<open>
  The ways a call can end without returning: a run-time panic of Go (an index outside an
  array or a slice), \<^verbatim>\<open>log.Fatalf\<close>, and the explicit \<^verbatim>\<open>panic("unimplemented")\<close>.
\<close>

datatype abort = IndexOutOfRange | Fatal | Unimplemented

record sharedData =
  data :: "byte list"
  cas :: uint32

text \<open>
  The field \<^verbatim>\<open>logs\<close> is an array of \<^verbatim>\<open>types.LogLevelMax\<close> slices: a list whose length is
  that constant. The constant is declared outside base.go, so \<open>newBaseHost\<close> takes it as
  a parameter and the methods read it back as the length of the array. Go maps are finite
  maps; \<^verbatim>\<open>len(m)\<close> is the number of keys, \<^term>\<open>card (fmdom' m)\<close>. The map \<^verbatim>\<open>sharedDataKVS\<close>
  holds pointers, each allocated by the one write that creates its key and never stored
  anywhere else, so the map from keys to the pointed records is the same thing.
\<close>

record baseHost =
  logs :: "string list list"
  tickPeriod :: uint32
  queues :: "(uint32, byte list list) fmap"
  queueNameID :: "(string, uint32) fmap"
  sharedDataKVS :: "(string, sharedData) fmap"
  metricIDToValue :: "(uint32, uint64) fmap"
  metricIDToType :: "(uint32, MetricType) fmap"
  metricNameToID :: "(string, uint32) fmap"

definition newBaseHost :: "nat \<Rightarrow> baseHost" where
  "newBaseHost LogLevelMax =
     \<lparr>logs = replicate LogLevelMax [],
      tickPeriod = 0,
      queues = fmempty,
      queueNameID = fmempty,
      sharedDataKVS = fmempty,
      metricIDToValue = fmempty,
      metricIDToType = fmempty,
      metricNameToID = fmempty\<rparr>"

subsection \<open>Logs and the tick period\<close>

text \<open>
  \<^verbatim>\<open>b.logs[logLevel] = append(b.logs[logLevel], str)\<close>: Go checks the index against the
  length of the array and panics when it is outside, before anything is stored.
\<close>

definition ProxyLog :: "baseHost \<Rightarrow> LogLevel \<Rightarrow> string \<Rightarrow> abort + (Status \<times> baseHost)" where
  "ProxyLog b logLevel str =
     (if unat logLevel < length (logs b)
      then Inr (StatusOK, b\<lparr>logs := (logs b)[unat logLevel := logs b ! unat logLevel @ [str]]\<rparr>)
      else Inl IndexOutOfRange)"

definition GetLogs :: "baseHost \<Rightarrow> LogLevel \<Rightarrow> abort + string list" where
  "GetLogs b level =
     (if length (logs b) \<le> unat level then Inl Fatal
      else Inr (logs b ! unat level))"

definition getBuffer :: "baseHost \<Rightarrow> abort + (Status \<times> baseHost)" where
  "getBuffer b = Inl Unimplemented"

definition ProxySetTickPeriodMilliseconds :: "baseHost \<Rightarrow> uint32 \<Rightarrow> Status \<times> baseHost" where
  "ProxySetTickPeriodMilliseconds b period = (StatusOK, b\<lparr>tickPeriod := period\<rparr>)"

definition GetTickPeriod :: "baseHost \<Rightarrow> uint32" where
  "GetTickPeriod b = tickPeriod b"

subsection \<open>Shared queues\<close>

text \<open>
  The second component of the result is the value written to \<^verbatim>\<open>*returnID\<close>.
  \<^verbatim>\<open>uint32(len(b.queues))\<close> keeps the low 32 bits of the number of keys.
\<close>

definition ProxyRegisterSharedQueue :: "baseHost \<Rightarrow> string \<Rightarrow> Status \<times> uint32 \<times> baseHost" where
  "ProxyRegisterSharedQueue b name =
     (case fmlookup (queueNameID b) name of
        Some qid \<Rightarrow> (StatusOK, qid, b)
      | None \<Rightarrow>
          (let qid = of_nat (card (fmdom' (queues b)))
           in (StatusOK, qid,
               b\<lparr>queues := fmupd qid [] (queues b),
                 queueNameID := fmupd name qid (queueNameID b)\<rparr>)))"

text \<open>
  The second component is what the call writes to \<^verbatim>\<open>*returnValueData\<close> and
  \<^verbatim>\<open>*returnValueSize\<close>: \<open>None\<close> when it writes nothing. \<^verbatim>\<open>&data[0]\<close> indexes the head
  payload, which panics when the payload has no byte; the queue has not been assigned yet.
\<close>

definition ProxyDequeueSharedQueue ::
  "baseHost \<Rightarrow> uint32 \<Rightarrow> abort + (Status \<times> byte list option \<times> baseHost)" where
  "ProxyDequeueSharedQueue b queueID =
     (case fmlookup (queues b) queueID of
        None \<Rightarrow> Inr (StatusNotFound, None, b)
      | Some queue \<Rightarrow>
          (case queue of
             [] \<Rightarrow> Inr (StatusEmpty, None, b)
           | d # rest \<Rightarrow>
               (if d = [] then Inl IndexOutOfRange
                else Inr (StatusOK, Some d, b\<lparr>queues := fmupd queueID rest (queues b)\<rparr>))))"

definition ProxyEnqueueSharedQueue :: "baseHost \<Rightarrow> uint32 \<Rightarrow> byte list \<Rightarrow> Status \<times> baseHost" where
  "ProxyEnqueueSharedQueue b queueID val =
     (case fmlookup (queues b) queueID of
        None \<Rightarrow> (StatusNotFound, b)
      | Some queue \<Rightarrow> (StatusOK, b\<lparr>queues := fmupd queueID (queue @ [val]) (queues b)\<rparr>))"

text \<open>Reading a missing key of a Go map gives the zero value, here the nil slice of length 0.\<close>

definition GetQueueSize :: "baseHost \<Rightarrow> uint32 \<Rightarrow> nat" where
  "GetQueueSize b queueID =
     (case fmlookup (queues b) queueID of None \<Rightarrow> 0 | Some queue \<Rightarrow> length queue)"

subsection \<open>Shared data\<close>

text \<open>
  The second component is the payload and the counter written through the output
  pointers. \<^verbatim>\<open>&value.data[0]\<close> panics when the stored payload has no byte.
\<close>

definition ProxyGetSharedData ::
  "baseHost \<Rightarrow> string \<Rightarrow> abort + (Status \<times> (byte list \<times> uint32) option)" where
  "ProxyGetSharedData b key =
     (case fmlookup (sharedDataKVS b) key of
        None \<Rightarrow> Inr (StatusNotFound, None)
      | Some v \<Rightarrow>
          (if data v = [] then Inl IndexOutOfRange
           else Inr (StatusOK, Some (data v, cas v))))"

definition ProxySetSharedData ::
  "baseHost \<Rightarrow> string \<Rightarrow> byte list \<Rightarrow> uint32 \<Rightarrow> Status \<times> baseHost" where
  "ProxySetSharedData b key val c =
     (case fmlookup (sharedDataKVS b) key of
        None \<Rightarrow>
          (StatusOK, b\<lparr>sharedDataKVS := fmupd key \<lparr>data = val, cas = c + 1\<rparr> (sharedDataKVS b)\<rparr>)
      | Some prev \<Rightarrow>
          (if cas prev \<noteq> c then (StatusCasMismatch, b)
           else (StatusOK,
                 b\<lparr>sharedDataKVS := fmupd key (prev\<lparr>cas := c + 1, data := val\<rparr>) (sharedDataKVS b)\<rparr>)))"

subsection \<open>Metrics\<close>

definition ProxyDefineMetric ::
  "baseHost \<Rightarrow> MetricType \<Rightarrow> string \<Rightarrow> Status \<times> uint32 \<times> baseHost" where
  "ProxyDefineMetric b metricType name =
     (case fmlookup (metricNameToID b) name of
        Some mid \<Rightarrow> (StatusOK, mid, b)
      | None \<Rightarrow>
          (let mid = of_nat (card (fmdom' (metricNameToID b)))
           in (StatusOK, mid,
               b\<lparr>metricNameToID := fmupd name mid (metricNameToID b),
                 metricIDToValue := fmupd mid 0 (metricIDToValue b),
                 metricIDToType := fmupd mid metricType (metricIDToType b)\<rparr>)))"

text \<open>\<^verbatim>\<open>uint64(offset)\<close> keeps the sixty-four bits of the signed offset.\<close>

definition uint64_of_int64 :: "int64 \<Rightarrow> uint64" where
  "uint64_of_int64 offset = word_of_int (sint offset)"

definition ProxyIncrementMetric :: "baseHost \<Rightarrow> uint32 \<Rightarrow> int64 \<Rightarrow> Status \<times> baseHost" where
  "ProxyIncrementMetric b metricID offset =
     (case fmlookup (metricIDToValue b) metricID of
        None \<Rightarrow> (StatusBadArgument, b)
      | Some v \<Rightarrow>
          (StatusOK,
           b\<lparr>metricIDToValue := fmupd metricID (v + uint64_of_int64 offset) (metricIDToValue b)\<rparr>))"

definition ProxyRecordMetric :: "baseHost \<Rightarrow> uint32 \<Rightarrow> uint64 \<Rightarrow> Status \<times> baseHost" where
  "ProxyRecordMetric b metricID v =
     (case fmlookup (metricIDToValue b) metricID of
        None \<Rightarrow> (StatusBadArgument, b)
      | Some _ \<Rightarrow> (StatusOK, b\<lparr>metricIDToValue := fmupd metricID v (metricIDToValue b)\<rparr>))"

definition ProxyGetMetric :: "baseHost \<Rightarrow> uint32 \<Rightarrow> Status \<times> uint64 option" where
  "ProxyGetMetric b metricID =
     (case fmlookup (metricIDToValue b) metricID of
        None \<Rightarrow> (StatusBadArgument, None)
      | Some v \<Rightarrow> (StatusOK, Some v))"

subsection \<open>Sequences of calls\<close>

text \<open>
  Orders and histories are properties of sequences of calls on one host. A call is a
  method of \<^verbatim>\<open>baseHost\<close> with its arguments; \<open>invoke\<close> gives the host after the call. No method writes a field before the point where it can panic, so after a call
  that panics the host is the one before the call, which is what a caller that recovers
  sees.
\<close>

datatype hostcall =
    CallLog LogLevel string
  | CallGetLogs LogLevel
  | CallSetTickPeriod uint32
  | CallGetTickPeriod
  | CallRegisterSharedQueue string
  | CallDequeueSharedQueue uint32
  | CallEnqueueSharedQueue uint32 "byte list"
  | CallGetQueueSize uint32
  | CallGetSharedData string
  | CallSetSharedData string "byte list" uint32
  | CallDefineMetric MetricType string
  | CallIncrementMetric uint32 int64
  | CallRecordMetric uint32 uint64
  | CallGetMetric uint32

fun invoke :: "baseHost \<Rightarrow> hostcall \<Rightarrow> baseHost" where
  "invoke b (CallLog logLevel str) =
     (case ProxyLog b logLevel str of Inl _ \<Rightarrow> b | Inr r \<Rightarrow> snd r)"
| "invoke b (CallGetLogs level) = b"
| "invoke b (CallSetTickPeriod period) = snd (ProxySetTickPeriodMilliseconds b period)"
| "invoke b CallGetTickPeriod = b"
| "invoke b (CallRegisterSharedQueue name) = snd (snd (ProxyRegisterSharedQueue b name))"
| "invoke b (CallDequeueSharedQueue queueID) =
     (case ProxyDequeueSharedQueue b queueID of Inl _ \<Rightarrow> b | Inr r \<Rightarrow> snd (snd r))"
| "invoke b (CallEnqueueSharedQueue queueID val) = snd (ProxyEnqueueSharedQueue b queueID val)"
| "invoke b (CallGetQueueSize queueID) = b"
| "invoke b (CallGetSharedData key) = b"
| "invoke b (CallSetSharedData key val c) = snd (ProxySetSharedData b key val c)"
| "invoke b (CallDefineMetric metricType name) = snd (snd (ProxyDefineMetric b metricType name))"
| "invoke b (CallIncrementMetric metricID offset) = snd (ProxyIncrementMetric b metricID offset)"
| "invoke b (CallRecordMetric metricID v) = snd (ProxyRecordMetric b metricID v)"
| "invoke b (CallGetMetric metricID) = b"

fun run :: "baseHost \<Rightarrow> hostcall list \<Rightarrow> baseHost" where
  "run b [] = b"
| "run b (c # cs) = run (invoke b c) cs"

text \<open>The names passed to \<open>ProxyRegisterSharedQueue\<close> in a sequence, and the IDs returned.\<close>

fun registeredNames :: "hostcall list \<Rightarrow> string list" where
  "registeredNames [] = []"
| "registeredNames (c # cs) =
     (case c of CallRegisterSharedQueue name \<Rightarrow> [name] | _ \<Rightarrow> []) @ registeredNames cs"

fun registerIDs :: "baseHost \<Rightarrow> hostcall list \<Rightarrow> uint32 list" where
  "registerIDs b [] = []"
| "registerIDs b (c # cs) =
     (case c of
        CallRegisterSharedQueue name \<Rightarrow> [fst (snd (ProxyRegisterSharedQueue b name))]
      | _ \<Rightarrow> []) @
     registerIDs (invoke b c) cs"

text \<open>The queue IDs in use are the numbers below the number of queues.\<close>

definition queueIDsDense :: "baseHost \<Rightarrow> bool" where
  "queueIDsDense b \<longleftrightarrow> fmdom' (queues b) = {i. unat i < card (fmdom' (queues b))}"

text \<open>
  The counter stored for \<open>key\<close> after each write to \<open>key\<close> that returned OK, in the order
  of the calls, and the \<open>expectedCas\<close> arguments of all writes to \<open>key\<close>.
\<close>

fun observedCas :: "baseHost \<Rightarrow> string \<Rightarrow> hostcall list \<Rightarrow> uint32 list" where
  "observedCas b key [] = []"
| "observedCas b key (c # cs) =
     (case c of
        CallSetSharedData k val e \<Rightarrow>
          (if k = key \<and> fst (ProxySetSharedData b k val e) = StatusOK
           then (case fmlookup (sharedDataKVS (snd (ProxySetSharedData b k val e))) key of
                   None \<Rightarrow> []
                 | Some v \<Rightarrow> [cas v])
           else [])
      | _ \<Rightarrow> []) @
     observedCas (invoke b c) key cs"

fun expectedCasOf :: "string \<Rightarrow> hostcall list \<Rightarrow> uint32 list" where
  "expectedCasOf key [] = []"
| "expectedCasOf key (c # cs) =
     (case c of
        CallSetSharedData k val e \<Rightarrow> (if k = key then [e] else [])
      | _ \<Rightarrow> []) @
     expectedCasOf key cs"

text \<open>
  Enqueueing a list of payloads on one queue, and the results of \<open>n\<close> dequeues in a row:
  the status with the payload returned, or the panic.
\<close>

fun enqueueAll :: "baseHost \<Rightarrow> uint32 \<Rightarrow> byte list list \<Rightarrow> baseHost" where
  "enqueueAll b queueID [] = b"
| "enqueueAll b queueID (e # es) =
     enqueueAll (invoke b (CallEnqueueSharedQueue queueID e)) queueID es"

fun dequeueN :: "baseHost \<Rightarrow> uint32 \<Rightarrow> nat \<Rightarrow> (abort + Status \<times> byte list option) list" where
  "dequeueN b queueID 0 = []"
| "dequeueN b queueID (Suc n) =
     (case ProxyDequeueSharedQueue b queueID of
        Inl a \<Rightarrow> Inl a
      | Inr r \<Rightarrow> Inr (fst r, fst (snd r))) #
     dequeueN (invoke b (CallDequeueSharedQueue queueID)) queueID n"

section \<open>Auxiliary facts\<close>

lemma sharedData_update_both: "prev\<lparr>cas := c, data := d\<rparr> = \<lparr>data = d, cas = c\<rparr>"
  by (cases prev) simp

lemma unat_of_nat_uint32: "n < 2 ^ 32 \<Longrightarrow> unat (of_nat n :: uint32) = n"
  by (simp add: unat_of_nat)

lemma uint_add_int64:
  "uint (v + uint64_of_int64 off) = (uint v + sint off) mod 2 ^ 64"
proof -
  have "v + uint64_of_int64 off = word_of_int (uint v + sint off)"
    by (simp add: uint64_of_int64_def)
  then have "uint (v + uint64_of_int64 off) = take_bit 64 (uint v + sint off)"
    by (simp only: unsigned_of_int) simp
  then show ?thesis by (simp add: take_bit_eq_mod)
qed

section \<open>Shared data: creation and compare-and-swap\<close>

text \<open>
  C2. A write to a key that is not in the store returns OK whatever \<open>expectedCas\<close> is,
  and stores the given payload with the counter \<open>expectedCas + 1\<close> (in 32-bit arithmetic);
  nothing else in the host changes.
\<close>

theorem set_new_key_creates:
  assumes "fmlookup (sharedDataKVS b) key = None"
  shows "ProxySetSharedData b key val expectedCas =
           (StatusOK,
            b\<lparr>sharedDataKVS :=
                fmupd key \<lparr>data = val, cas = expectedCas + 1\<rparr> (sharedDataKVS b)\<rparr>)"
  using assms by (simp add: ProxySetSharedData_def)

theorem set_new_key_creates_witness:
  "fmlookup (sharedDataKVS (newBaseHost 6)) ''k'' = None \<and>
   ProxySetSharedData (newBaseHost 6) ''k'' [1, 2] 41 =
     (StatusOK,
      (newBaseHost 6)\<lparr>sharedDataKVS := fmupd ''k'' \<lparr>data = [1, 2], cas = 42\<rparr> fmempty\<rparr>)"
  using set_new_key_creates [of "newBaseHost 6" "''k''" "[1, 2]" 41]
  by (simp add: newBaseHost_def)

text \<open>
  C3. For a key that is in the store, a write whose \<open>expectedCas\<close> differs from the
  stored counter returns CasMismatch and leaves the whole host, so the stored payload and
  counter, as it was; a write whose \<open>expectedCas\<close> equals the stored counter returns OK
  and stores the new payload with the counter \<open>expectedCas + 1\<close>.
\<close>

theorem set_existing_key_cas:
  assumes "fmlookup (sharedDataKVS b) key = Some prev"
  shows "(expectedCas \<noteq> cas prev \<longrightarrow>
            ProxySetSharedData b key val expectedCas = (StatusCasMismatch, b)) \<and>
         (expectedCas = cas prev \<longrightarrow>
            ProxySetSharedData b key val expectedCas =
              (StatusOK,
               b\<lparr>sharedDataKVS :=
                   fmupd key \<lparr>data = val, cas = expectedCas + 1\<rparr> (sharedDataKVS b)\<rparr>))"
  using assms by (auto simp add: ProxySetSharedData_def sharedData_update_both)

theorem set_existing_key_cas_witness:
  "fmlookup (sharedDataKVS (run (newBaseHost 6) [CallSetSharedData ''k'' [1] 0])) ''k'' =
     Some \<lparr>data = [1], cas = 1\<rparr> \<and>
   ProxySetSharedData (run (newBaseHost 6) [CallSetSharedData ''k'' [1] 0]) ''k'' [2] 0 =
     (StatusCasMismatch, run (newBaseHost 6) [CallSetSharedData ''k'' [1] 0]) \<and>
   fst (ProxySetSharedData (run (newBaseHost 6) [CallSetSharedData ''k'' [1] 0]) ''k'' [2] 1) =
     StatusOK \<and>
   fmlookup (sharedDataKVS (snd (ProxySetSharedData
       (run (newBaseHost 6) [CallSetSharedData ''k'' [1] 0]) ''k'' [2] 1))) ''k'' =
     Some \<lparr>data = [2], cas = 2\<rparr>"
  using set_existing_key_cas
          [of "run (newBaseHost 6) [CallSetSharedData ''k'' [1] 0]" "''k''"
              "\<lparr>data = [1], cas = 1\<rparr>" 0 "[2]"]
        set_existing_key_cas
          [of "run (newBaseHost 6) [CallSetSharedData ''k'' [1] 0]" "''k''"
              "\<lparr>data = [1], cas = 1\<rparr>" 1 "[2]"]
  by (simp add: ProxySetSharedData_def newBaseHost_def)

subsection \<open>The sequence of counters\<close>

text \<open>
  A call that is not a write to \<open>key\<close> leaves the entry of \<open>key\<close> alone; a write to
  \<open>key\<close> creates the entry, is accepted, or is rejected.
\<close>

lemma invoke_keeps_key:
  "\<forall>val e. c \<noteq> CallSetSharedData key val e \<Longrightarrow>
   fmlookup (sharedDataKVS (invoke b c)) key = fmlookup (sharedDataKVS b) key"
  by (cases c)
     (auto simp add: ProxyLog_def ProxySetTickPeriodMilliseconds_def
        ProxyRegisterSharedQueue_def ProxyDequeueSharedQueue_def ProxyEnqueueSharedQueue_def
        ProxySetSharedData_def ProxyDefineMetric_def ProxyIncrementMetric_def
        ProxyRecordMetric_def Let_def
        split: option.splits list.splits if_splits)

lemma observedCas_other:
  "\<forall>val e. c \<noteq> CallSetSharedData key val e \<Longrightarrow>
   observedCas b key (c # cs) = observedCas (invoke b c) key cs"
  by (cases c) auto

lemma expectedCasOf_other:
  "\<forall>val e. c \<noteq> CallSetSharedData key val e \<Longrightarrow>
   expectedCasOf key (c # cs) = expectedCasOf key cs"
  by (cases c) auto

lemma write_creates:
  assumes "fmlookup (sharedDataKVS b) key = None"
  shows "observedCas b key (CallSetSharedData key val e # cs) =
           (e + 1) # observedCas (invoke b (CallSetSharedData key val e)) key cs"
  using assms by (simp add: ProxySetSharedData_def)

lemma write_accepted:
  assumes "fmlookup (sharedDataKVS b) key = Some prev" and "cas prev = e"
  shows "observedCas b key (CallSetSharedData key val e # cs) =
           (cas prev + 1) # observedCas (invoke b (CallSetSharedData key val e)) key cs"
    and "fmlookup (sharedDataKVS (invoke b (CallSetSharedData key val e))) key =
           Some \<lparr>data = val, cas = cas prev + 1\<rparr>"
  using assms by (simp_all add: ProxySetSharedData_def sharedData_update_both)

lemma write_rejected:
  assumes "fmlookup (sharedDataKVS b) key = Some prev" and "cas prev \<noteq> e"
  shows "observedCas b key (CallSetSharedData key val e # cs) =
           observedCas (invoke b (CallSetSharedData key val e)) key cs"
    and "invoke b (CallSetSharedData key val e) = b"
  using assms by (simp_all add: ProxySetSharedData_def)

lemma observedCas_from_stored:
  "fmlookup (sharedDataKVS b) key = Some prev \<Longrightarrow>
   successively (\<lambda>x y. y = x + 1) (cas prev # observedCas b key calls)"
proof (induction calls arbitrary: b prev)
  case Nil
  then show ?case by simp
next
  case (Cons c cs)
  show ?case
  proof (cases "\<exists>val e. c = CallSetSharedData key val e")
    case False
    then have other: "\<forall>val e. c \<noteq> CallSetSharedData key val e" by blast
    from Cons.prems invoke_keeps_key [OF other, of b]
    have "fmlookup (sharedDataKVS (invoke b c)) key = Some prev" by simp
    from Cons.IH [OF this] show ?thesis
      by (simp only: observedCas_other [OF other])
  next
    case True
    then obtain val e where c: "c = CallSetSharedData key val e" by blast
    show ?thesis
    proof (cases "cas prev = e")
      case True
      note acc = write_accepted [OF Cons.prems True, of val]
      from Cons.IH [OF acc(2)] show ?thesis
        by (simp add: c acc(1) del: observedCas.simps invoke.simps)
    next
      case False
      note rej = write_rejected [OF Cons.prems False, of val]
      from Cons.IH [OF Cons.prems] show ?thesis
        by (simp only: c rej)
    qed
  qed
qed

lemma observedCas_first_write:
  "fmlookup (sharedDataKVS b) key = None \<Longrightarrow> expectedCasOf key calls = e # es \<Longrightarrow>
   observedCas b key calls \<noteq> [] \<and> hd (observedCas b key calls) = e + 1 \<and>
   successively (\<lambda>x y. y = x + 1) (observedCas b key calls)"
proof (induction calls arbitrary: b)
  case Nil
  then show ?case by simp
next
  case (Cons c cs)
  show ?case
  proof (cases "\<exists>val e. c = CallSetSharedData key val e")
    case False
    then have other: "\<forall>val e. c \<noteq> CallSetSharedData key val e" by blast
    from Cons.prems invoke_keeps_key [OF other, of b]
    have none: "fmlookup (sharedDataKVS (invoke b c)) key = None" by simp
    from Cons.prems have "expectedCasOf key cs = e # es"
      by (simp only: expectedCasOf_other [OF other])
    from Cons.IH [OF none this] show ?thesis
      by (simp add: observedCas_other [OF other] del: observedCas.simps)
  next
    case True
    then obtain val e' where c: "c = CallSetSharedData key val e'" by blast
    with Cons.prems have e: "e' = e" by simp
    have stored: "fmlookup (sharedDataKVS (invoke b c)) key = Some \<lparr>data = val, cas = e + 1\<rparr>"
      using Cons.prems(1) by (simp add: c e ProxySetSharedData_def)
    from observedCas_from_stored [OF stored, of cs]
    have "successively (\<lambda>x y. y = x + 1) ((e + 1) # observedCas (invoke b c) key cs)"
      by simp
    then show ?thesis
      using write_creates [OF Cons.prems(1), of val e cs]
      by (simp add: c e del: observedCas.simps invoke.simps)
  qed
qed

lemma successively_plus_one_less:
  "successively (\<lambda>x y. y = x + 1) cs \<Longrightarrow> cs \<noteq> [] \<Longrightarrow>
   unat (hd cs) + length cs \<le> 2 ^ 32 \<Longrightarrow> successively (<) (cs :: uint32 list)"
proof (induction "\<lambda>x y :: uint32. y = x + 1" cs rule: successively.induct)
  case 1
  then show ?case by simp
next
  case (2 x)
  then show ?case by simp
next
  case (3 x y xs)
  from "3.prems"(1)
  have both: "y = x + 1 \<and> successively (\<lambda>x y. y = x + 1) (y # xs)"
    by auto
  then have y: "y = x + 1" and rest: "successively (\<lambda>x y. y = x + 1) (y # xs)"
    by blast+
  from "3.prems" have "unat x + unat (1 :: uint32) < 2 ^ LENGTH(32)" by simp
  then have uy: "unat (x + 1) = unat x + 1" by (simp only: unat_add_lem) simp
  then have "x < y" by (simp add: y word_less_nat_alt)
  moreover have "successively (<) (y # xs)"
    using "3.prems" uy y by (intro "3.hyps" rest) simp_all
  ultimately show ?case by simp
qed

lemma successively_plus_one_sorted:
  "successively (\<lambda>x y. y = x + 1) cs \<Longrightarrow> cs \<noteq> [] \<Longrightarrow>
   unat (hd cs) + length cs \<le> 2 ^ 32 \<Longrightarrow> sorted_wrt (<) (cs :: uint32 list)"
  using successively_plus_one_less [of cs]
  by (simp add: successively_conv_sorted_wrt [of "(<) :: uint32 \<Rightarrow> uint32 \<Rightarrow> bool"])


lemma observedCas_no_write:
  "expectedCasOf key calls = [] \<Longrightarrow> observedCas b key calls = []"
proof (induction calls arbitrary: b)
  case Nil
  then show ?case by simp
next
  case (Cons c cs)
  then have other: "\<forall>val e. c \<noteq> CallSetSharedData key val e" by auto
  with Cons.prems have "expectedCasOf key cs = []"
    by (simp only: expectedCasOf_other [OF other])
  then have "observedCas (invoke b c) key cs = []" by (rule Cons.IH)
  then show ?case by (simp only: observedCas_other [OF other])
qed

text \<open>
  C1 (as amended). An accepted write to a stored key stores the old counter plus 1, in
  32-bit arithmetic, so in any sequence of calls the counters stored for a key after its
  successful writes go up by exactly 1 from one to the next. When
  the key is already stored, the first of them is the stored counter plus 1. When the key
  is not stored, the first write to it succeeds and stores its \<open>expectedCas\<close> plus 1,
  which is 1 when that \<open>expectedCas\<close> is 0. The counters are strictly increasing as long
  as they do not pass \<open>2 ^ 32 - 1\<close>, where the counter wraps to 0.
\<close>

theorem cas_steps_by_one:
  "successively (\<lambda>x y. y = x + 1) (observedCas b key calls) \<and>
   (fmlookup (sharedDataKVS b) key = Some prev \<and> observedCas b key calls \<noteq> [] \<longrightarrow>
      hd (observedCas b key calls) = cas prev + 1) \<and>
   (fmlookup (sharedDataKVS b) key = None \<and> expectedCasOf key calls = e # es \<longrightarrow>
      observedCas b key calls \<noteq> [] \<and> hd (observedCas b key calls) = e + 1) \<and>
   (observedCas b key calls \<noteq> [] \<and>
    unat (hd (observedCas b key calls)) + length (observedCas b key calls) \<le> 2 ^ 32 \<longrightarrow>
      sorted_wrt (<) (observedCas b key calls)) \<and>
   (fmlookup (sharedDataKVS b) key = Some prev \<and>
    fst (ProxySetSharedData b key val expectedCas) = StatusOK \<longrightarrow>
      map_option cas
        (fmlookup (sharedDataKVS (snd (ProxySetSharedData b key val expectedCas))) key) =
        Some (cas prev + 1))"
proof -
  have steps: "successively (\<lambda>x y. y = x + 1) (observedCas b key calls)"
  proof (cases "fmlookup (sharedDataKVS b) key")
    case (Some p)
    from observedCas_from_stored [OF Some, of calls] show ?thesis
      by (auto simp add: successively_Cons)
  next
    case None
    show ?thesis
    proof (cases "expectedCasOf key calls")
      case Nil
      then show ?thesis by (simp add: observedCas_no_write)
    next
      case (Cons e' es')
      from observedCas_first_write [OF None Cons] show ?thesis by blast
    qed
  qed
  have stored: "hd (observedCas b key calls) = cas prev + 1"
    if "fmlookup (sharedDataKVS b) key = Some prev" and "observedCas b key calls \<noteq> []"
    using observedCas_from_stored [OF that(1), of calls] that(2)
    by (simp add: successively_Cons)
  have first: "observedCas b key calls \<noteq> [] \<and> hd (observedCas b key calls) = e + 1"
    if "fmlookup (sharedDataKVS b) key = None" and "expectedCasOf key calls = e # es"
    using observedCas_first_write [OF that] by blast
  have incr: "sorted_wrt (<) (observedCas b key calls)"
    if "observedCas b key calls \<noteq> []"
      and "unat (hd (observedCas b key calls)) + length (observedCas b key calls) \<le> 2 ^ 32"
    using steps that by (rule successively_plus_one_sorted)
  have one: "map_option cas
      (fmlookup (sharedDataKVS (snd (ProxySetSharedData b key val expectedCas))) key) =
      Some (cas prev + 1)"
    if "fmlookup (sharedDataKVS b) key = Some prev"
      and "fst (ProxySetSharedData b key val expectedCas) = StatusOK"
    using that by (simp add: ProxySetSharedData_def split: if_splits)
  from steps stored first incr one show ?thesis by blast
qed

theorem cas_steps_by_one_witness:
  "fmlookup (sharedDataKVS (newBaseHost 6)) ''k'' = None \<and>
   expectedCasOf ''k''
     [CallSetSharedData ''k'' [1] 0, CallSetSharedData ''k'' [2] 1,
      CallSetSharedData ''k'' [3] 1, CallSetSharedData ''j'' [9] 7,
      CallSetSharedData ''k'' [4] 2] = [0, 1, 1, 2] \<and>
   observedCas (newBaseHost 6) ''k''
     [CallSetSharedData ''k'' [1] 0, CallSetSharedData ''k'' [2] 1,
      CallSetSharedData ''k'' [3] 1, CallSetSharedData ''j'' [9] 7,
      CallSetSharedData ''k'' [4] 2] = [1, 2, 3] \<and>
   sorted_wrt (<) (observedCas (newBaseHost 6) ''k''
     [CallSetSharedData ''k'' [1] 0, CallSetSharedData ''k'' [2] 1,
      CallSetSharedData ''k'' [3] 1, CallSetSharedData ''j'' [9] 7,
      CallSetSharedData ''k'' [4] 2]) \<and>
   fmlookup (sharedDataKVS (run (newBaseHost 6) [CallSetSharedData ''k'' [1] 0])) ''k'' =
     Some \<lparr>data = [1], cas = 1\<rparr> \<and>
   observedCas (run (newBaseHost 6) [CallSetSharedData ''k'' [1] 0]) ''k''
     [CallSetSharedData ''k'' [2] 1] = [2] \<and>
   fst (ProxySetSharedData (run (newBaseHost 6) [CallSetSharedData ''k'' [1] 0])
     ''k'' [2] 1) = StatusOK \<and>
   map_option cas (fmlookup (sharedDataKVS (snd (ProxySetSharedData
     (run (newBaseHost 6) [CallSetSharedData ''k'' [1] 0]) ''k'' [2] 1))) ''k'') = Some 2"
  using cas_steps_by_one
          [of "newBaseHost 6" "''k''"
              "[CallSetSharedData ''k'' [1] 0, CallSetSharedData ''k'' [2] 1,
                CallSetSharedData ''k'' [3] 1, CallSetSharedData ''j'' [9] 7,
                CallSetSharedData ''k'' [4] 2]"
              "\<lparr>data = [], cas = 0\<rparr>" 0 "[1, 1, 2]" "[]" 0]
        cas_steps_by_one
          [of "run (newBaseHost 6) [CallSetSharedData ''k'' [1] 0]" "''k''"
              "[CallSetSharedData ''k'' [2] 1]" "\<lparr>data = [1], cas = 1\<rparr>" 0 "[]" "[2]" 1]
  by (simp add: ProxySetSharedData_def newBaseHost_def)

text \<open>
  C1 as stated fails: a first write with \<open>expectedCas = 2 ^ 32 - 2\<close> stores the counter
  \<open>2 ^ 32 - 1\<close>, not 1, and the next accepted write stores 0, which is smaller.
\<close>

theorem cas_sequence_counterexample:
  "observedCas (newBaseHost 6) ''k''
     [CallSetSharedData ''k'' [1] 4294967294, CallSetSharedData ''k'' [2] 4294967295] =
     [4294967295, 0] \<and>
   hd (observedCas (newBaseHost 6) ''k''
     [CallSetSharedData ''k'' [1] 4294967294, CallSetSharedData ''k'' [2] 4294967295]) \<noteq> 1 \<and>
   \<not> sorted_wrt (<) (observedCas (newBaseHost 6) ''k''
     [CallSetSharedData ''k'' [1] 4294967294, CallSetSharedData ''k'' [2] 4294967295])"
  by (simp add: ProxySetSharedData_def newBaseHost_def)

text \<open>
  C10. When the payload stored for a key has no byte, \<open>ProxyGetSharedData\<close> panics on
  \<^verbatim>\<open>&value.data[0]\<close>; when the payload at the head of a queue has no byte,
  \<open>ProxyDequeueSharedQueue\<close> panics on \<^verbatim>\<open>&data[0]\<close>. With a payload of at least one
  byte both return OK with the payload, and a call that returned OK had such a payload.
\<close>

theorem empty_payload_panics:
  "(fmlookup (sharedDataKVS b) key = Some v \<longrightarrow>
      (data v = [] \<longrightarrow> ProxyGetSharedData b key = Inl IndexOutOfRange) \<and>
      (data v \<noteq> [] \<longrightarrow> ProxyGetSharedData b key = Inr (StatusOK, Some (data v, cas v)))) \<and>
   (fmlookup (queues b) queueID = Some (d # rest) \<longrightarrow>
      (d = [] \<longrightarrow> ProxyDequeueSharedQueue b queueID = Inl IndexOutOfRange) \<and>
      (d \<noteq> [] \<longrightarrow> ProxyDequeueSharedQueue b queueID =
          Inr (StatusOK, Some d, b\<lparr>queues := fmupd queueID rest (queues b)\<rparr>))) \<and>
   (ProxyGetSharedData b key = Inr (StatusOK, out) \<longrightarrow>
      (\<exists>v. fmlookup (sharedDataKVS b) key = Some v \<and> data v \<noteq> [] \<and>
           out = Some (data v, cas v))) \<and>
   (ProxyDequeueSharedQueue b queueID = Inr (StatusOK, qout, b') \<longrightarrow>
      (\<exists>d rest. fmlookup (queues b) queueID = Some (d # rest) \<and> d \<noteq> [] \<and>
           qout = Some d))"
  by (auto simp add: ProxyGetSharedData_def ProxyDequeueSharedQueue_def
      split: option.splits list.splits if_splits)

theorem empty_payload_panics_witness:
  "fmlookup (sharedDataKVS (run (newBaseHost 6)
       [CallSetSharedData ''k'' [] 0, CallRegisterSharedQueue ''q'',
        CallEnqueueSharedQueue 0 []])) ''k'' = Some \<lparr>data = [], cas = 1\<rparr> \<and>
   ProxyGetSharedData (run (newBaseHost 6)
       [CallSetSharedData ''k'' [] 0, CallRegisterSharedQueue ''q'',
        CallEnqueueSharedQueue 0 []]) ''k'' = Inl IndexOutOfRange \<and>
   fmlookup (queues (run (newBaseHost 6)
       [CallSetSharedData ''k'' [] 0, CallRegisterSharedQueue ''q'',
        CallEnqueueSharedQueue 0 []])) 0 = Some [[]] \<and>
   ProxyDequeueSharedQueue (run (newBaseHost 6)
       [CallSetSharedData ''k'' [] 0, CallRegisterSharedQueue ''q'',
        CallEnqueueSharedQueue 0 []]) 0 = Inl IndexOutOfRange \<and>
   ProxyGetSharedData (run (newBaseHost 6) [CallSetSharedData ''k'' [5] 0]) ''k'' =
     Inr (StatusOK, Some ([5], 1)) \<and>
   fmlookup (queues (run (newBaseHost 6)
       [CallRegisterSharedQueue ''q'', CallEnqueueSharedQueue 0 [7]])) 0 = Some [[7]] \<and>
   ProxyDequeueSharedQueue (run (newBaseHost 6)
       [CallRegisterSharedQueue ''q'', CallEnqueueSharedQueue 0 [7]]) 0 =
     Inr (StatusOK, Some [7],
          (newBaseHost 6)\<lparr>queues := fmupd 0 [] fmempty,
                            queueNameID := fmupd ''q'' 0 fmempty\<rparr>)"
  using empty_payload_panics
          [of "run (newBaseHost 6)
                 [CallRegisterSharedQueue ''q'', CallEnqueueSharedQueue 0 [7]]"
              "''k''" "\<lparr>data = [], cas = 1\<rparr>" 0 "[7]" "[]" None "Some [7]"
              "(newBaseHost 6)\<lparr>queues := fmupd 0 [] fmempty,
                                queueNameID := fmupd ''q'' 0 fmempty\<rparr>"]
        empty_payload_panics
          [of "run (newBaseHost 6)
                 [CallSetSharedData ''k'' [] 0, CallRegisterSharedQueue ''q'',
                  CallEnqueueSharedQueue 0 []]"
              "''k''" "\<lparr>data = [], cas = 1\<rparr>" 0 "[]" "[]" None None "newBaseHost 6"]
        empty_payload_panics
          [of "run (newBaseHost 6) [CallSetSharedData ''k'' [5] 0]"
              "''k''" "\<lparr>data = [5], cas = 1\<rparr>" 0 "[]" "[]" "Some ([5], 1)" None
              "newBaseHost 6"]
  by (simp add: ProxySetSharedData_def ProxyRegisterSharedQueue_def
      ProxyEnqueueSharedQueue_def ProxyGetSharedData_def ProxyDequeueSharedQueue_def
      newBaseHost_def)

section \<open>Shared queues\<close>

text \<open>
  C6. \<open>GetQueueSize\<close> returns the number of pending entries of a registered queue (one
  more after an enqueue) and 0 for an ID that is not registered, where
  \<open>ProxyEnqueueSharedQueue\<close> and \<open>ProxyDequeueSharedQueue\<close> return NotFound and change
  nothing.
\<close>

theorem queue_size_asymmetry:
  "(fmlookup (queues b) queueID = Some queue \<longrightarrow>
      GetQueueSize b queueID = length queue \<and>
      GetQueueSize (snd (ProxyEnqueueSharedQueue b queueID val)) queueID = length queue + 1) \<and>
   (fmlookup (queues b) queueID = None \<longrightarrow>
      GetQueueSize b queueID = 0 \<and>
      ProxyEnqueueSharedQueue b queueID val = (StatusNotFound, b) \<and>
      ProxyDequeueSharedQueue b queueID = Inr (StatusNotFound, None, b))"
  by (simp add: GetQueueSize_def ProxyEnqueueSharedQueue_def ProxyDequeueSharedQueue_def)

theorem queue_size_asymmetry_witness:
  "fmlookup (queues (run (newBaseHost 6)
       [CallRegisterSharedQueue ''q'', CallEnqueueSharedQueue 0 [7],
        CallEnqueueSharedQueue 0 [8]])) 0 = Some [[7], [8]] \<and>
   GetQueueSize (run (newBaseHost 6)
       [CallRegisterSharedQueue ''q'', CallEnqueueSharedQueue 0 [7],
        CallEnqueueSharedQueue 0 [8]]) 0 = 2 \<and>
   fmlookup (queues (newBaseHost 6)) 5 = None \<and>
   GetQueueSize (newBaseHost 6) 5 = 0 \<and>
   ProxyEnqueueSharedQueue (newBaseHost 6) 5 [9] = (StatusNotFound, newBaseHost 6) \<and>
   ProxyDequeueSharedQueue (newBaseHost 6) 5 = Inr (StatusNotFound, None, newBaseHost 6)"
  using queue_size_asymmetry
          [of "run (newBaseHost 6)
                 [CallRegisterSharedQueue ''q'', CallEnqueueSharedQueue 0 [7],
                  CallEnqueueSharedQueue 0 [8]]" 0 "[[7], [8]]" "[9]"]
        queue_size_asymmetry [of "newBaseHost 6" 5 "[]" "[9]"]
  by (simp add: ProxyRegisterSharedQueue_def ProxyEnqueueSharedQueue_def
      ProxyDequeueSharedQueue_def GetQueueSize_def newBaseHost_def)

subsection \<open>First in, first out\<close>

text \<open>
  Payloads of at least one byte come back in the order they were enqueued, and the
  dequeue after the last one returns Empty.
\<close>

lemma enqueueAll_queue:
  "fmlookup (queues b) q = Some pending \<Longrightarrow>
   fmlookup (queues (enqueueAll b q es)) q = Some (pending @ es)"
  by (induction es arbitrary: b pending) (simp_all add: ProxyEnqueueSharedQueue_def)

lemma dequeueN_queue:
  "fmlookup (queues b) q = Some xs \<Longrightarrow> \<forall>x \<in> set xs. x \<noteq> [] \<Longrightarrow>
   dequeueN b q (Suc (length xs)) =
     map (\<lambda>x. Inr (StatusOK, Some x)) xs @ [Inr (StatusEmpty, None)]"
  by (induction xs arbitrary: b) (simp_all add: ProxyDequeueSharedQueue_def)

lemma fifo_nonempty_payloads:
  assumes "fmlookup (queues b) q = Some []" and "\<forall>e \<in> set es. e \<noteq> []"
  shows "dequeueN (enqueueAll b q es) q (Suc (length es)) =
           map (\<lambda>e. Inr (StatusOK, Some e)) es @ [Inr (StatusEmpty, None)]"
proof -
  from enqueueAll_queue [OF assms(1), of es]
  have "fmlookup (queues (enqueueAll b q es)) q = Some es" by simp
  then show ?thesis using assms(2) by (rule dequeueN_queue)
qed

text \<open>
  C4. Dequeues are to yield the enqueued payloads in the order of the enqueues. The code
  loses the order at a payload with no byte: after enqueueing \<open>[1]\<close>, the empty payload
  and \<open>[2]\<close> on a registered queue, the first dequeue returns \<open>[1]\<close>, the second panics
  on \<^verbatim>\<open>&data[0]\<close> instead of returning the empty payload, and the empty payload stays at
  the head, so no later dequeue reaches \<open>[2]\<close>.
\<close>

theorem fifo_breaks_on_empty_payload:
  "dequeueN (enqueueAll (run (newBaseHost 6) [CallRegisterSharedQueue ''q'']) 0 [[1], [], [2]])
     0 3 =
   [Inr (StatusOK, Some [1]), Inl IndexOutOfRange, Inl IndexOutOfRange]"
  by (simp add: ProxyRegisterSharedQueue_def ProxyEnqueueSharedQueue_def
      ProxyDequeueSharedQueue_def newBaseHost_def numeral_3_eq_3)

subsection \<open>Registration\<close>

lemma invoke_other_queues:
  "\<forall>name. c \<noteq> CallRegisterSharedQueue name \<Longrightarrow>
   fmdom' (queues (invoke b c)) = fmdom' (queues b) \<and>
   queueNameID (invoke b c) = queueNameID b"
  by (cases c)
     (auto simp add: ProxyLog_def ProxySetTickPeriodMilliseconds_def
        ProxyDequeueSharedQueue_def ProxyEnqueueSharedQueue_def ProxySetSharedData_def
        ProxyDefineMetric_def ProxyIncrementMetric_def ProxyRecordMetric_def Let_def
        fmlookup_dom'_iff
        split: option.splits list.splits if_splits)

lemma register_known:
  "fmlookup (queueNameID b) name = Some qid \<Longrightarrow>
   ProxyRegisterSharedQueue b name = (StatusOK, qid, b)"
  by (simp add: ProxyRegisterSharedQueue_def)

lemma register_twice:
  "ProxyRegisterSharedQueue (snd (snd (ProxyRegisterSharedQueue b name))) name =
     (StatusOK, fst (snd (ProxyRegisterSharedQueue b name)),
      snd (snd (ProxyRegisterSharedQueue b name)))"
  by (simp add: ProxyRegisterSharedQueue_def Let_def split: option.splits)

lemma register_new:
  assumes dense: "queueIDsDense b"
    and new: "fmlookup (queueNameID b) name = None"
    and room: "card (fmdom' (queues b)) < 2 ^ 32"
  shows "fst (snd (ProxyRegisterSharedQueue b name)) = of_nat (card (fmdom' (queues b)))"
    and "card (fmdom' (queues (snd (snd (ProxyRegisterSharedQueue b name))))) =
           Suc (card (fmdom' (queues b)))"
    and "queueIDsDense (snd (snd (ProxyRegisterSharedQueue b name)))"
    and "fmdom' (queueNameID (snd (snd (ProxyRegisterSharedQueue b name)))) =
           insert name (fmdom' (queueNameID b))"
proof -
  let ?k = "card (fmdom' (queues b))"
  let ?q = "of_nat ?k :: uint32"
  let ?b' = "snd (snd (ProxyRegisterSharedQueue b name))"
  have uq: "unat ?q = ?k" using room by (rule unat_of_nat_uint32)
  have dom: "fmdom' (queues b) = {i. unat i < ?k}"
    using dense by (simp add: queueIDsDense_def)
  have fresh: "?q \<notin> fmdom' (queues b)"
  proof
    assume "?q \<in> fmdom' (queues b)"
    with dom have "unat ?q < ?k" by blast
    with uq show False by simp
  qed
  have dom': "fmdom' (queues ?b') = insert ?q (fmdom' (queues b))"
    using new by (simp add: ProxyRegisterSharedQueue_def Let_def)
  show "fst (snd (ProxyRegisterSharedQueue b name)) = ?q"
    using new by (simp add: ProxyRegisterSharedQueue_def Let_def)
  show card': "card (fmdom' (queues ?b')) = Suc ?k"
    using fresh by (simp add: dom')
  have "insert ?q {i. unat i < ?k} = {i. unat i < Suc ?k}"
  proof (rule set_eqI)
    fix i :: uint32
    have "i = ?q \<longleftrightarrow> unat i = ?k"
      using uq by (auto simp add: word_unat_eq_iff)
    then show "i \<in> insert ?q {i. unat i < ?k} \<longleftrightarrow> i \<in> {i. unat i < Suc ?k}"
      by auto
  qed
  with dom dom' card' show "queueIDsDense ?b'"
    by (simp add: queueIDsDense_def)
  show "fmdom' (queueNameID ?b') = insert name (fmdom' (queueNameID b))"
    using new by (simp add: ProxyRegisterSharedQueue_def Let_def)
qed

lemma upt_from: "[k..<Suc (k + n)] = k # [Suc k..<Suc (k + n)]"
  by (rule upt_conv_Cons) simp

lemma registerIDs_from:
  "queueIDsDense b \<Longrightarrow> distinct (registeredNames calls) \<Longrightarrow>
   set (registeredNames calls) \<inter> fmdom' (queueNameID b) = {} \<Longrightarrow>
   card (fmdom' (queues b)) + length (registeredNames calls) \<le> 2 ^ 32 \<Longrightarrow>
   registerIDs b calls =
     map of_nat [card (fmdom' (queues b)) ..<
                 card (fmdom' (queues b)) + length (registeredNames calls)]"
proof (induction calls arbitrary: b)
  case Nil
  then show ?case by simp
next
  case (Cons c cs)
  show ?case
  proof (cases "\<exists>name. c = CallRegisterSharedQueue name")
    case True
    then obtain name where c: "c = CallRegisterSharedQueue name" by blast
    let ?b' = "snd (snd (ProxyRegisterSharedQueue b name))"
    from Cons.prems c have new: "fmlookup (queueNameID b) name = None"
      by (simp add: fmdom'_notD)
    from Cons.prems c have room: "card (fmdom' (queues b)) < 2 ^ 32" by simp
    note reg = register_new [OF Cons.prems(1) new room]
    have "registerIDs ?b' cs =
            map of_nat [card (fmdom' (queues ?b')) ..<
                        card (fmdom' (queues ?b')) + length (registeredNames cs)]"
      using Cons.prems c reg by (intro Cons.IH) auto
    then have rest: "registerIDs ?b' cs =
            map of_nat [Suc (card (fmdom' (queues b))) ..<
                        Suc (card (fmdom' (queues b))) + length (registeredNames cs)]"
      by (simp only: reg(2))
    have first: "registerIDs b (c # cs) =
            of_nat (card (fmdom' (queues b))) # registerIDs ?b' cs"
      using c reg(1) by simp
    have "[card (fmdom' (queues b)) ..<
           card (fmdom' (queues b)) + length (registeredNames (c # cs))] =
          card (fmdom' (queues b)) #
          [Suc (card (fmdom' (queues b))) ..<
           Suc (card (fmdom' (queues b))) + length (registeredNames cs)]"
      using c by (simp del: upt_Suc add: upt_from) 
    with first rest show ?thesis by (simp only: list.map)
  next
    case False
    then have other: "\<forall>name. c \<noteq> CallRegisterSharedQueue name" by blast
    note same = invoke_other_queues [OF other, of b]
    have names: "registeredNames (c # cs) = registeredNames cs"
      using other by (cases c) simp_all
    have ids: "registerIDs b (c # cs) = registerIDs (invoke b c) cs"
      using other by (cases c) simp_all
    have "registerIDs (invoke b c) cs =
            map of_nat [card (fmdom' (queues (invoke b c))) ..<
                        card (fmdom' (queues (invoke b c))) + length (registeredNames cs)]"
      using Cons.prems [unfolded names] same by (intro Cons.IH) (simp_all add: queueIDsDense_def)
    then show ?thesis using same names ids by simp
  qed
qed

lemma newBaseHost_dense: "queueIDsDense (newBaseHost LogLevelMax)"
  by (simp add: queueIDsDense_def newBaseHost_def)



lemma invoke_dense: "queueIDsDense b \<Longrightarrow> queueIDsDense (invoke b c)"
proof (cases "\<exists>name. c = CallRegisterSharedQueue name")
  case False
  then have "\<forall>name. c \<noteq> CallRegisterSharedQueue name" by blast
  from invoke_other_queues [OF this, of b] show "queueIDsDense b \<Longrightarrow> ?thesis"
    by (simp add: queueIDsDense_def)
next
  case True
  then obtain name where c: "c = CallRegisterSharedQueue name" by blast
  assume dense: "queueIDsDense b"
  show ?thesis
  proof (cases "fmlookup (queueNameID b) name")
    case (Some qid)
    with dense c show ?thesis by (simp add: register_known)
  next
    case None
    show ?thesis
    proof (cases "card (fmdom' (queues b)) < 2 ^ 32")
      case True
      from register_new(3) [OF dense None True] c show ?thesis by simp
    next
      case False
      have "unat i < card (fmdom' (queues b))" for i :: uint32
      proof -
        have "unat i < 2 ^ 32" using unsigned_less [of i] by simp
        with False show ?thesis by simp
      qed
      with dense have full: "fmdom' (queues b) = UNIV"
        by (auto simp add: queueIDsDense_def)
      have "fmdom' (queues (invoke b c)) = UNIV"
        using None c full by (simp add: ProxyRegisterSharedQueue_def Let_def)
      with dense full show ?thesis by (simp add: queueIDsDense_def)
    qed
  qed
qed

lemma run_dense: "queueIDsDense b \<Longrightarrow> queueIDsDense (run b calls)"
  by (induction calls arbitrary: b) (simp_all add: invoke_dense)

text \<open>
  C5. Registering a name twice returns the same ID and the second call changes nothing,
  so no second queue is created. From a new host, in any sequence of calls whose
  registered names are distinct (at most \<open>2 ^ 32\<close> of them, the range of the ID), the
  registrations return 0, 1, 2, ... in call order, whatever other calls come between;
  and after any sequence of calls a name that is not registered yet gets the number of
  queues registered so far as its ID, and adds one queue.
\<close>

theorem register_shared_queue_ids:
  "ProxyRegisterSharedQueue (snd (snd (ProxyRegisterSharedQueue b name))) name =
     (StatusOK, fst (snd (ProxyRegisterSharedQueue b name)),
      snd (snd (ProxyRegisterSharedQueue b name))) \<and>
   (fmlookup (queueNameID b) name = Some qid \<longrightarrow>
      ProxyRegisterSharedQueue b name = (StatusOK, qid, b)) \<and>
   (distinct (registeredNames calls) \<and> length (registeredNames calls) \<le> 2 ^ 32 \<longrightarrow>
      registerIDs (newBaseHost LogLevelMax) calls =
        map of_nat [0..<length (registeredNames calls)]) \<and>
   (fmlookup (queueNameID (run (newBaseHost LogLevelMax) calls)) name = None \<and>
    card (fmdom' (queues (run (newBaseHost LogLevelMax) calls))) < 2 ^ 32 \<longrightarrow>
      unat (fst (snd (ProxyRegisterSharedQueue (run (newBaseHost LogLevelMax) calls) name))) =
        card (fmdom' (queues (run (newBaseHost LogLevelMax) calls))) \<and>
      card (fmdom' (queues (snd (snd
        (ProxyRegisterSharedQueue (run (newBaseHost LogLevelMax) calls) name))))) =
        Suc (card (fmdom' (queues (run (newBaseHost LogLevelMax) calls)))))"
proof (intro conjI impI)
  show "ProxyRegisterSharedQueue (snd (snd (ProxyRegisterSharedQueue b name))) name =
     (StatusOK, fst (snd (ProxyRegisterSharedQueue b name)),
      snd (snd (ProxyRegisterSharedQueue b name)))"
    by (rule register_twice)
next
  assume "fmlookup (queueNameID b) name = Some qid"
  then show "ProxyRegisterSharedQueue b name = (StatusOK, qid, b)"
    by (rule register_known)
next
  assume "distinct (registeredNames calls) \<and> length (registeredNames calls) \<le> 2 ^ 32"
  with registerIDs_from [of "newBaseHost LogLevelMax" calls]
  show "registerIDs (newBaseHost LogLevelMax) calls =
          map of_nat [0..<length (registeredNames calls)]"
    by (simp add: newBaseHost_dense) (simp add: newBaseHost_def)
next
  let ?b = "run (newBaseHost LogLevelMax) calls"
  assume a: "fmlookup (queueNameID ?b) name = None \<and> card (fmdom' (queues ?b)) < 2 ^ 32"
  have dense: "queueIDsDense ?b" by (rule run_dense) (rule newBaseHost_dense)
  from a register_new(1) [OF dense, of name]
  show "unat (fst (snd (ProxyRegisterSharedQueue ?b name))) = card (fmdom' (queues ?b))"
    by (simp add: unat_of_nat_uint32)
  from a register_new(2) [OF dense, of name]
  show "card (fmdom' (queues (snd (snd (ProxyRegisterSharedQueue ?b name))))) =
          Suc (card (fmdom' (queues ?b)))"
    by simp
qed

theorem register_shared_queue_ids_witness:
  "fmlookup (queueNameID (run (newBaseHost 6) [CallRegisterSharedQueue ''a''])) ''a'' = Some 0 \<and>
   ProxyRegisterSharedQueue (run (newBaseHost 6) [CallRegisterSharedQueue ''a'']) ''a'' =
     (StatusOK, 0, run (newBaseHost 6) [CallRegisterSharedQueue ''a'']) \<and>
   distinct (registeredNames
     [CallRegisterSharedQueue ''a'', CallEnqueueSharedQueue 0 [1],
      CallRegisterSharedQueue ''b'', CallDequeueSharedQueue 0,
      CallRegisterSharedQueue ''c'']) \<and>
   registerIDs (newBaseHost 6)
     [CallRegisterSharedQueue ''a'', CallEnqueueSharedQueue 0 [1],
      CallRegisterSharedQueue ''b'', CallDequeueSharedQueue 0,
      CallRegisterSharedQueue ''c''] = [0, 1, 2] \<and>
   fmlookup (queueNameID (run (newBaseHost 6)
     [CallRegisterSharedQueue ''a'', CallEnqueueSharedQueue 0 [1],
      CallRegisterSharedQueue ''b'', CallDequeueSharedQueue 0,
      CallRegisterSharedQueue ''c''])) ''z'' = None \<and>
   unat (fst (snd (ProxyRegisterSharedQueue (run (newBaseHost 6)
     [CallRegisterSharedQueue ''a'', CallEnqueueSharedQueue 0 [1],
      CallRegisterSharedQueue ''b'', CallDequeueSharedQueue 0,
      CallRegisterSharedQueue ''c'']) ''z''))) = 3"
  using register_shared_queue_ids
          [of "newBaseHost 6" "''z''" 0
              "[CallRegisterSharedQueue ''a'', CallEnqueueSharedQueue 0 [1],
                CallRegisterSharedQueue ''b'', CallDequeueSharedQueue 0,
                CallRegisterSharedQueue ''c'']" 6]
        register_shared_queue_ids
          [of "run (newBaseHost 6) [CallRegisterSharedQueue ''a'']" "''a''" 0
              "[CallRegisterSharedQueue ''a'', CallEnqueueSharedQueue 0 [1],
                CallRegisterSharedQueue ''b'', CallDequeueSharedQueue 0,
                CallRegisterSharedQueue ''c'']" 6]
  by (simp add: ProxyRegisterSharedQueue_def ProxyEnqueueSharedQueue_def
      ProxyDequeueSharedQueue_def newBaseHost_def Let_def card_insert_if)

section \<open>Metrics\<close>

text \<open>
  C7. For a defined metric ID, \<open>ProxyIncrementMetric\<close> returns OK and stores the old
  value plus the signed offset modulo \<open>2 ^ 64\<close>, which \<open>ProxyGetMetric\<close> then returns;
  \<open>ProxyRecordMetric\<close> returns OK and stores the given value whatever the old one was.
  For an unknown ID both return BadArgument and leave the host as it was.
\<close>

theorem metric_increment_record:
  "(fmlookup (metricIDToValue b) metricID = Some v \<longrightarrow>
      ProxyIncrementMetric b metricID offset =
        (StatusOK,
         b\<lparr>metricIDToValue := fmupd metricID (v + uint64_of_int64 offset) (metricIDToValue b)\<rparr>) \<and>
      fst (ProxyGetMetric (snd (ProxyIncrementMetric b metricID offset)) metricID) = StatusOK \<and>
      map_option uint (snd (ProxyGetMetric (snd (ProxyIncrementMetric b metricID offset)) metricID))
        = Some ((uint v + sint offset) mod 2 ^ 64) \<and>
      ProxyRecordMetric b metricID x =
        (StatusOK, b\<lparr>metricIDToValue := fmupd metricID x (metricIDToValue b)\<rparr>) \<and>
      ProxyGetMetric (snd (ProxyRecordMetric b metricID x)) metricID = (StatusOK, Some x)) \<and>
   (fmlookup (metricIDToValue b) metricID = None \<longrightarrow>
      ProxyIncrementMetric b metricID offset = (StatusBadArgument, b) \<and>
      ProxyRecordMetric b metricID x = (StatusBadArgument, b))"
  by (simp add: ProxyIncrementMetric_def ProxyRecordMetric_def ProxyGetMetric_def
      uint_add_int64)

theorem metric_increment_record_witness:
  "fmlookup (metricIDToValue (run (newBaseHost 6)
       [CallDefineMetric MetricTypeCounter ''m'', CallRecordMetric 0 18446744073709551615])) 0 =
     Some 18446744073709551615 \<and>
   ProxyGetMetric (snd (ProxyIncrementMetric (run (newBaseHost 6)
       [CallDefineMetric MetricTypeCounter ''m'', CallRecordMetric 0 18446744073709551615])
       0 2)) 0 = (StatusOK, Some 1) \<and>
   ProxyGetMetric (snd (ProxyRecordMetric (run (newBaseHost 6)
       [CallDefineMetric MetricTypeCounter ''m'', CallRecordMetric 0 18446744073709551615])
       0 3)) 0 = (StatusOK, Some 3) \<and>
   fmlookup (metricIDToValue (newBaseHost 6)) 9 = None \<and>
   ProxyIncrementMetric (newBaseHost 6) 9 2 = (StatusBadArgument, newBaseHost 6) \<and>
   ProxyRecordMetric (newBaseHost 6) 9 3 = (StatusBadArgument, newBaseHost 6)"
  using metric_increment_record
          [of "run (newBaseHost 6)
                 [CallDefineMetric MetricTypeCounter ''m'',
                  CallRecordMetric 0 18446744073709551615]"
              0 18446744073709551615 2 3]
        metric_increment_record [of "newBaseHost 6" 9 0 2 3]
  by (simp add: ProxyDefineMetric_def ProxyRecordMetric_def ProxyIncrementMetric_def
      ProxyGetMetric_def uint64_of_int64_def newBaseHost_def)

text \<open>
  C8. \<open>ProxyDefineMetric\<close> with a name that is already defined returns the existing ID
  and changes nothing: the value, the stored kind and the set of IDs stay, whatever kind
  is supplied. With a new name it returns the number of names defined so far (as a 32-bit
  value, so the number itself while that is below \<open>2 ^ 32\<close>), stores the kind under that
  ID and sets the value to 0; defining the name again returns the same ID.
\<close>

theorem define_metric_existing_and_new:
  "(fmlookup (metricNameToID b) name = Some mid \<longrightarrow>
      ProxyDefineMetric b metricType name = (StatusOK, mid, b)) \<and>
   (fmlookup (metricNameToID b) name = None \<longrightarrow>
      fst (ProxyDefineMetric b metricType name) = StatusOK \<and>
      fst (snd (ProxyDefineMetric b metricType name)) =
        of_nat (card (fmdom' (metricNameToID b))) \<and>
      (card (fmdom' (metricNameToID b)) < 2 ^ 32 \<longrightarrow>
         unat (fst (snd (ProxyDefineMetric b metricType name))) =
           card (fmdom' (metricNameToID b))) \<and>
      fmlookup (metricNameToID (snd (snd (ProxyDefineMetric b metricType name)))) name =
        Some (of_nat (card (fmdom' (metricNameToID b)))) \<and>
      fmlookup (metricIDToValue (snd (snd (ProxyDefineMetric b metricType name))))
        (of_nat (card (fmdom' (metricNameToID b)))) = Some 0 \<and>
      fmlookup (metricIDToType (snd (snd (ProxyDefineMetric b metricType name))))
        (of_nat (card (fmdom' (metricNameToID b)))) = Some metricType \<and>
      card (fmdom' (metricNameToID (snd (snd (ProxyDefineMetric b metricType name))))) =
        card (fmdom' (metricNameToID b)) + 1 \<and>
      ProxyDefineMetric (snd (snd (ProxyDefineMetric b metricType name))) otherType name =
        (StatusOK, of_nat (card (fmdom' (metricNameToID b))),
         snd (snd (ProxyDefineMetric b metricType name))))"
  by (auto simp add: ProxyDefineMetric_def Let_def unat_of_nat_uint32 fmdom'_notI)

theorem define_metric_existing_and_new_witness:
  "fmlookup (metricNameToID (run (newBaseHost 6)
       [CallDefineMetric MetricTypeCounter ''m'', CallIncrementMetric 0 5])) ''m'' = Some 0 \<and>
   ProxyDefineMetric (run (newBaseHost 6)
       [CallDefineMetric MetricTypeCounter ''m'', CallIncrementMetric 0 5])
       MetricTypeGauge ''m'' =
     (StatusOK, 0, run (newBaseHost 6)
       [CallDefineMetric MetricTypeCounter ''m'', CallIncrementMetric 0 5]) \<and>
   ProxyGetMetric (snd (snd (ProxyDefineMetric (run (newBaseHost 6)
       [CallDefineMetric MetricTypeCounter ''m'', CallIncrementMetric 0 5])
       MetricTypeGauge ''m''))) 0 = (StatusOK, Some 5) \<and>
   fmlookup (metricNameToID (run (newBaseHost 6)
       [CallDefineMetric MetricTypeCounter ''m'', CallIncrementMetric 0 5])) ''n'' = None \<and>
   fst (snd (ProxyDefineMetric (run (newBaseHost 6)
       [CallDefineMetric MetricTypeCounter ''m'', CallIncrementMetric 0 5])
       MetricTypeGauge ''n'')) = 1 \<and>
   ProxyGetMetric (snd (snd (ProxyDefineMetric (run (newBaseHost 6)
       [CallDefineMetric MetricTypeCounter ''m'', CallIncrementMetric 0 5])
       MetricTypeGauge ''n''))) 1 = (StatusOK, Some 0)"
  using define_metric_existing_and_new
          [of "run (newBaseHost 6)
                 [CallDefineMetric MetricTypeCounter ''m'', CallIncrementMetric 0 5]"
              "''m''" 0 MetricTypeGauge MetricTypeGauge]
        define_metric_existing_and_new
          [of "run (newBaseHost 6)
                 [CallDefineMetric MetricTypeCounter ''m'', CallIncrementMetric 0 5]"
              "''n''" 0 MetricTypeGauge MetricTypeGauge]
  by (simp add: ProxyDefineMetric_def ProxyIncrementMetric_def ProxyGetMetric_def
      uint64_of_int64_def newBaseHost_def)

section \<open>Logs\<close>

text \<open>No call removes a recorded message or changes the number of levels.\<close>

lemma invoke_logs:
  "length (logs (invoke b c)) = length (logs b) \<and>
   (\<forall>i < length (logs b). prefix (logs b ! i) (logs (invoke b c) ! i))"
  by (cases c)
     (auto simp add: ProxyLog_def ProxySetTickPeriodMilliseconds_def
        ProxyRegisterSharedQueue_def ProxyDequeueSharedQueue_def ProxyEnqueueSharedQueue_def
        ProxySetSharedData_def ProxyDefineMetric_def ProxyIncrementMetric_def
        ProxyRecordMetric_def Let_def nth_list_update
        split: option.splits list.splits if_splits)

lemma run_logs:
  "length (logs (run b calls)) = length (logs b) \<and>
   (\<forall>i < length (logs b). prefix (logs b ! i) (logs (run b calls) ! i))"
proof (induction calls arbitrary: b)
  case Nil
  then show ?case by simp
next
  case (Cons c cs)
  from invoke_logs [of b c] Cons.IH [of "invoke b c"] show ?case
    by (auto intro: prefix_order.trans)
qed

lemma run_log_messages:
  "unat level < length (logs b) \<Longrightarrow>
   logs (run b (map (CallLog level) msgs)) =
     (logs b)[unat level := logs b ! unat level @ msgs]"
  by (induction msgs arbitrary: b) (simp_all add: ProxyLog_def)

text \<open>
  C9 (as amended). \<open>ProxyLog\<close> does not check the level, and the level indexes the array
  of \<^verbatim>\<open>LogLevelMax\<close> buckets. For every level below \<^verbatim>\<open>LogLevelMax\<close> it returns OK and
  appends the message to the bucket of that level, leaving the other levels alone;
  messages logged one after the other are retrieved in that order after the messages
  already there, and no sequence of calls removes a message. For a level at or above
  \<^verbatim>\<open>LogLevelMax\<close> the index is out of range: the call panics, where \<open>GetLogs\<close> is fatal.
\<close>

theorem proxy_log_appends:
  "(unat level < length (logs b) \<longrightarrow>
      ProxyLog b level msg =
        Inr (StatusOK, b\<lparr>logs := (logs b)[unat level := logs b ! unat level @ [msg]]\<rparr>) \<and>
      GetLogs (invoke b (CallLog level msg)) level = Inr (logs b ! unat level @ [msg]) \<and>
      (\<forall>l. l \<noteq> level \<longrightarrow> GetLogs (invoke b (CallLog level msg)) l = GetLogs b l) \<and>
      GetLogs (run b (map (CallLog level) msgs)) level = Inr (logs b ! unat level @ msgs) \<and>
      (\<exists>more. GetLogs (run b calls) level = Inr (logs b ! unat level @ more))) \<and>
   (length (logs b) \<le> unat level \<longrightarrow>
      ProxyLog b level msg = Inl IndexOutOfRange \<and> GetLogs b level = Inl Fatal)"
proof (intro conjI impI allI)
  assume lt: "unat level < length (logs b)"
  then show "ProxyLog b level msg =
      Inr (StatusOK, b\<lparr>logs := (logs b)[unat level := logs b ! unat level @ [msg]]\<rparr>)"
    by (simp add: ProxyLog_def)
  from lt show "GetLogs (invoke b (CallLog level msg)) level = Inr (logs b ! unat level @ [msg])"
    by (simp add: ProxyLog_def GetLogs_def)
  from lt show "GetLogs (run b (map (CallLog level) msgs)) level =
      Inr (logs b ! unat level @ msgs)"
    by (simp add: run_log_messages GetLogs_def)
  from lt run_logs [of b calls]
  have "prefix (logs b ! unat level) (logs (run b calls) ! unat level)"
    and "unat level < length (logs (run b calls))" by simp_all
  then show "\<exists>more. GetLogs (run b calls) level = Inr (logs b ! unat level @ more)"
    by (auto simp add: GetLogs_def prefix_def)
next
  fix l
  assume "unat level < length (logs b)" and "l \<noteq> level"
  then show "GetLogs (invoke b (CallLog level msg)) l = GetLogs b l"
    by (simp add: ProxyLog_def GetLogs_def word_unat_eq_iff)
next
  assume "length (logs b) \<le> unat level"
  then show "ProxyLog b level msg = Inl IndexOutOfRange" and "GetLogs b level = Inl Fatal"
    by (simp_all add: ProxyLog_def GetLogs_def)
qed

theorem proxy_log_appends_witness:
  "unat (2 :: LogLevel) < length (logs (newBaseHost 6)) \<and>
   fst (projr (ProxyLog (newBaseHost 6) 2 ''a'')) = StatusOK \<and>
   GetLogs (run (newBaseHost 6) (map (CallLog 2) [''a'', ''b''])) 2 = Inr [''a'', ''b''] \<and>
   GetLogs (run (newBaseHost 6) (map (CallLog 2) [''a'', ''b''])) 3 = Inr [] \<and>
   length (logs (newBaseHost 6)) \<le> unat (6 :: LogLevel) \<and>
   ProxyLog (newBaseHost 6) 6 ''a'' = Inl IndexOutOfRange"
  using proxy_log_appends [of 2 "newBaseHost 6" "''a''" "[''a'', ''b'']" "[]"]
        proxy_log_appends [of 6 "newBaseHost 6" "''a''" "[]" "[]"]
  by (simp add: ProxyLog_def GetLogs_def newBaseHost_def)

text \<open>
  C9 as stated fails: with six levels, logging at level 6 does not return OK.
\<close>

theorem proxy_log_counterexample:
  "ProxyLog (newBaseHost 6) 6 ''critical'' = Inl IndexOutOfRange"
  by (simp add: ProxyLog_def newBaseHost_def)

end
